theory Spec2Isabelle
  imports Complex_Main "HOL-Library.Sublist"
begin

section \<open>JavaScript strings and arrays\<close>

text \<open>
  A JavaScript string is modelled as a \<^typ>\<open>string\<close>: one \<^typ>\<open>char\<close> per UTF-16 code
  unit, for the code units below 256 (ASCII and Latin-1). \<open>length\<close> is then the
  \<open>.length\<close> of the source. Numbers that the source keeps as doubles are small integers
  and halves of small integers, which doubles represent exactly; they are modelled as
  \<^typ>\<open>nat\<close>, \<^typ>\<open>int\<close> and \<^typ>\<open>rat\<close>.
\<close>

text \<open>\<open>String.prototype.toLowerCase\<close>: \<open>A\<close>..\<open>Z\<close> and the Latin-1 capitals move by 32.\<close>

definition toLowerCase_char :: "char \<Rightarrow> char" where
  "toLowerCase_char c =
     (let n = (of_char c :: nat)
      in if (65 \<le> n \<and> n \<le> 90) \<or> (192 \<le> n \<and> n \<le> 222 \<and> n \<noteq> 215)
         then char_of (n + 32) else c)"

definition toLowerCase :: "string \<Rightarrow> string" where
  "toLowerCase s = map toLowerCase_char s"

text \<open>\<open>Array.prototype.join\<close> on an array of strings.\<close>

fun join :: "string list \<Rightarrow> string \<Rightarrow> string" where
  "join [] sep = []"
| "join [x] sep = x"
| "join (x # y # ys) sep = x @ sep @ join (y # ys) sep"

text \<open>
  \<open>Array.prototype.includes\<close> is membership; \<open>String.prototype.includes\<close> asks for a
  contiguous occurrence, which is \<^const>\<open>sublist\<close>; \<open>startsWith\<close> and \<open>endsWith\<close> are
  \<^const>\<open>prefix\<close> and \<^const>\<open>suffix\<close>.
\<close>

definition includes_arr :: "'a list \<Rightarrow> 'a \<Rightarrow> bool" where
  "includes_arr xs x = (x \<in> set xs)"

definition includes_str :: "string \<Rightarrow> string \<Rightarrow> bool" where
  "includes_str s p = sublist p s"

definition startsWith :: "string \<Rightarrow> string \<Rightarrow> bool" where
  "startsWith s p = prefix p s"

definition endsWith :: "string \<Rightarrow> string \<Rightarrow> bool" where
  "endsWith s p = suffix p s"

text \<open>
  \<open>s.indexOf(p, start)\<close>: the least position \<open>i \<ge> start\<close> where \<open>p\<close> starts in \<open>s\<close>;
  the source's \<open>-1\<close> is \<open>None\<close>. \<open>indexOf_scan p cs i\<close> scans the rest \<open>cs\<close> of the string,
  which starts at position \<open>i\<close>.
\<close>

fun indexOf_scan :: "string \<Rightarrow> string \<Rightarrow> nat \<Rightarrow> nat option" where
  "indexOf_scan p [] i = (if p = [] then Some i else None)"
| "indexOf_scan p (c # cs) i = (if prefix p (c # cs) then Some i else indexOf_scan p cs (Suc i))"

definition indexOf_from :: "string \<Rightarrow> string \<Rightarrow> nat \<Rightarrow> nat option" where
  "indexOf_from s p start = (let k = min start (length s) in indexOf_scan p (drop k s) k)"

definition indexOf :: "string \<Rightarrow> string \<Rightarrow> nat option" where
  "indexOf s p = indexOf_from s p 0"

text \<open>\<open>s.substring(a, b)\<close>: both ends are clamped to the length and swapped when \<open>a > b\<close>.\<close>

definition substring :: "string \<Rightarrow> nat \<Rightarrow> nat \<Rightarrow> string" where
  "substring s a b =
     (let a' = min a (length s); b' = min b (length s);
          lo = min a' b'; hi = max a' b'
      in take (hi - lo) (drop lo s))"

text \<open>
  \<open>String.prototype.trim\<close> removes white space and line terminators at both ends: among
  the code units below 256 these are TAB, LF, VT, FF, CR, SPACE and NBSP.
\<close>

definition isWhiteSpace :: "char \<Rightarrow> bool" where
  "isWhiteSpace c = (of_char c \<in> {9, 10, 11, 12, 13, 32, 160 :: nat})"

definition trim :: "string \<Rightarrow> string" where
  "trim s = rev (dropWhile isWhiteSpace (rev (dropWhile isWhiteSpace s)))"

text \<open>\<open>String(n)\<close> for a non-negative integer \<open>n\<close>, as a template literal renders it.\<close>

definition digit_char :: "nat \<Rightarrow> char" where
  "digit_char d = char_of (48 + d)"

fun string_of_nat :: "nat \<Rightarrow> string" where
  "string_of_nat n =
     (if n < 10 then [digit_char n] else string_of_nat (n div 10) @ [digit_char (n mod 10)])"

declare string_of_nat.simps [simp del]

section \<open>The lexical analysis and the request interpreter (nlp.ts)\<close>

text \<open>
  \<open>TokenizedPrompt\<close>. The \<open>entities\<close> object is the one \<open>analyzePrompt\<close> builds: the four
  buckets \<open>technologies\<close>, \<open>actions\<close>, \<open>nouns\<close>, \<open>numbers\<close>, in this order.
\<close>

record Entities =
  technologies :: "string list"
  actions :: "string list"
  nouns :: "string list"
  numbers :: "string list"

record TokenizedPrompt =
  tokens :: "string list"
  tags :: "string list"
  entities :: Entities

text \<open>\<open>Object.values(tokenized.entities)\<close>.\<close>

definition Object_values :: "Entities \<Rightarrow> string list list" where
  "Object_values e = [technologies e, actions e, nouns e, numbers e]"

text \<open>\<open>CodeContext\<close>; an optional field that is \<open>undefined\<close> is \<open>None\<close>.\<close>

record CodeContext =
  language :: "string option"
  framework :: "string option"
  platform :: "string option"
  dependencies_ctx :: "string list"
  constraints :: "string list"

definition languages :: "string list" where
  "languages = [''javascript'', ''typescript'', ''python'', ''java'', ''c#'', ''ruby'', ''go'']"

definition frameworks :: "string list" where
  "frameworks = [''react'', ''angular'', ''vue'', ''express'', ''django'', ''spring'', ''flask'']"

definition platforms :: "string list" where
  "platforms = [''node'', ''browser'', ''web'', ''mobile'', ''desktop'', ''server'']"

definition constraintPhrases :: "string list" where
  "constraintPhrases = [''must be'', ''should be'', ''needs to be'', ''required to'']"

text \<open>
  The body of the \<open>forEach\<close> over \<open>constraintPhrases\<close>: \<open>cs\<close> is \<open>context.constraints\<close>
  so far, \<open>txt\<close> the lower-cased joined tokens.
\<close>

definition pushConstraint :: "string \<Rightarrow> string list \<Rightarrow> string \<Rightarrow> string list" where
  "pushConstraint txt cs phrase =
     (case indexOf txt phrase of
        None \<Rightarrow> cs
      | Some index \<Rightarrow>
          (case indexOf_from txt ''.'' index of
             None \<Rightarrow> cs
           | Some endIndex \<Rightarrow> cs @ [trim (substring txt (index + length phrase) endIndex)]))"

definition extractCodeContext :: "TokenizedPrompt \<Rightarrow> CodeContext" where
  "extractCodeContext tokenizedPrompt =
     (let techs = map toLowerCase (technologies (entities tokenizedPrompt));
          txt = toLowerCase (join (tokens tokenizedPrompt) '' '')
      in \<lparr> language = find (\<lambda>lang. includes_arr techs lang \<or> includes_arr techs (lang @ ''programming''))
                          languages,
           framework = find (\<lambda>framework. includes_arr techs framework) frameworks,
           platform = find (\<lambda>platform. includes_arr techs platform) platforms,
           dependencies_ctx =
             filter (\<lambda>tech. \<not> includes_arr platforms (toLowerCase tech))
               (filter (\<lambda>tech. \<not> includes_arr frameworks (toLowerCase tech))
                 (filter (\<lambda>tech. \<not> includes_arr languages (toLowerCase tech))
                   (technologies (entities tokenizedPrompt)))),
           constraints = foldl (pushConstraint txt) [] constraintPhrases \<rparr>)"

text \<open>
  \<open>analyzePrompt\<close> calls the tokenizer, the tagger and the entity recogniser of two
  libraries inside a \<open>try\<close>. They are the parameter \<open>nlp\<close>: \<open>Inr\<close> the analysis, or
  \<open>Inl\<close> the message of what a library threw, which \<open>analyzePrompt\<close> wraps.
\<close>

definition analyzePrompt ::
  "(string \<Rightarrow> string + TokenizedPrompt) \<Rightarrow> string \<Rightarrow> string + TokenizedPrompt" where
  "analyzePrompt nlp prompt =
     (case nlp prompt of
        Inl message \<Rightarrow> Inl (''Failed to analyze prompt: '' @ message)
      | Inr analysis \<Rightarrow> Inr analysis)"

definition commonPhrases :: "string list" where
  "commonPhrases = [''create a function'', ''implement a class'', ''generate an interface'',
     ''build a component'', ''develop an API'', ''write a test'']"

text \<open>\<open>suggestCompletion\<close>; \<open>tokenize\<close> is the library's word tokenizer.\<close>

definition suggestCompletion :: "(string \<Rightarrow> string list) \<Rightarrow> string \<Rightarrow> string list" where
  "suggestCompletion tokenize partial =
     (if length (tokenize partial) < 2 then []
      else take 5 (filter (\<lambda>phrase. startsWith phrase partial) commonPhrases))"

section \<open>The prompt processor (promptProcessing.ts)\<close>

record ProcessedPrompt =
  originalPrompt :: string
  tokenized :: TokenizedPrompt
  context_pp :: CodeContext
  complexity :: rat
  priority :: int
  estimatedTokens :: nat

record PromptValidationResult =
  isValid :: bool
  errors :: "string list"
  warnings :: "string list"
  suggestions :: "string list"

definition complexityKeywords :: "string list" where
  "complexityKeywords = [''async'', ''concurrent'', ''parallel'', ''optimize'', ''secure'',
     ''scale'', ''distributed'', ''enterprise'', ''integration'']"

definition calculateComplexity :: "TokenizedPrompt \<Rightarrow> rat" where
  "calculateComplexity tokenizedPrompt =
     (let complexity = 0;
          complexity = complexity +
            of_nat (foldl (\<lambda>sum arr. sum + length arr) 0 (Object_values (entities tokenizedPrompt)))
              * (1 / 2);
          complexity = complexity +
            of_nat (length (filter (\<lambda>token. includes_arr complexityKeywords (toLowerCase token))
                                   (tokens tokenizedPrompt))) * 2
      in min (max complexity 1) 10)"

definition urgentKeywords :: "string list" where
  "urgentKeywords = [''urgent'', ''asap'', ''critical'', ''important'', ''priority'']"

definition lowPriorityKeywords :: "string list" where
  "lowPriorityKeywords = [''experimental'', ''optional'', ''nice to have'']"

text \<open>
  The body of \<open>calculatePriority\<close>, with its two keyword arrays as arguments;
  \<open>calculatePriority\<close> is this body at the arrays the source writes.
\<close>

definition priorityFrom :: "string list \<Rightarrow> string list \<Rightarrow> TokenizedPrompt \<Rightarrow> int" where
  "priorityFrom urgent low tokenizedPrompt =
     (let priority = 5;
          priority = (if list_ex (\<lambda>token. includes_arr urgent (toLowerCase token))
                           (tokens tokenizedPrompt)
                      then priority + 2 else priority);
          priority = (if list_ex (\<lambda>token. includes_arr low (toLowerCase token))
                           (tokens tokenizedPrompt)
                      then priority - 2 else priority)
      in min (max priority 1) 10)"

definition calculatePriority :: "TokenizedPrompt \<Rightarrow> int" where
  "calculatePriority tokenizedPrompt = priorityFrom urgentKeywords lowPriorityKeywords tokenizedPrompt"

definition complexityIndicators_tokens :: "string list" where
  "complexityIndicators_tokens = [''async'', ''await'', ''try'', ''catch'', ''class'',
     ''interface'', ''extends'', ''implements'', ''generic'', ''template'']"

definition estimateRequiredTokens :: "TokenizedPrompt \<Rightarrow> nat" where
  "estimateRequiredTokens tokenizedPrompt =
     (let baseTokens = 500;
          additionalTokens = 0;
          additionalTokens = additionalTokens +
            foldl (\<lambda>sum arr. sum + length arr * 100) 0 (Object_values (entities tokenizedPrompt));
          additionalTokens = additionalTokens +
            length (technologies (entities tokenizedPrompt)) * 200;
          additionalTokens = additionalTokens +
            length (filter (\<lambda>token. includes_arr complexityIndicators_tokens (toLowerCase token))
                           (tokens tokenizedPrompt)) * 150
      in baseTokens + additionalTokens)"

text \<open>What \<open>processPrompt\<close> builds once the analysis has returned.\<close>

definition processTokenized :: "string \<Rightarrow> TokenizedPrompt \<Rightarrow> ProcessedPrompt" where
  "processTokenized prompt analysis =
     \<lparr> originalPrompt = prompt,
       tokenized = analysis,
       context_pp = extractCodeContext analysis,
       complexity = calculateComplexity analysis,
       priority = calculatePriority analysis,
       estimatedTokens = estimateRequiredTokens analysis \<rparr>"

definition processPrompt ::
  "(string \<Rightarrow> string + TokenizedPrompt) \<Rightarrow> string \<Rightarrow> string + ProcessedPrompt" where
  "processPrompt nlp prompt =
     (case analyzePrompt nlp prompt of
        Inl message \<Rightarrow> Inl (''Failed to process prompt: '' @ message)
      | Inr analysis \<Rightarrow> Inr (processTokenized prompt analysis))"

definition commonLanguages :: "string list" where
  "commonLanguages = [''javascript'', ''typescript'', ''python'', ''java'', ''c#'']"

definition msg_too_short :: string where
  "msg_too_short = ''Prompt is too short. Please provide more details.''"

definition msg_very_long :: string where
  "msg_very_long = ''Prompt is very long. Consider breaking it into smaller requests.''"

definition msg_code_type :: string where
  "msg_code_type = ''Consider specifying the type of code you want to generate (function, class, component, etc.).''"

definition msg_language :: string where
  "msg_language = ''Consider specifying the programming language.''"

definition validatePrompt :: "(string \<Rightarrow> string list) \<Rightarrow> string \<Rightarrow> PromptValidationResult" where
  "validatePrompt tokenize prompt =
     (let result = \<lparr> isValid = True, errors = [], warnings = [], suggestions = [] \<rparr>;
          result = (if length prompt < 10
                    then result\<lparr> errors := errors result @ [msg_too_short], isValid := False \<rparr>
                    else result);
          result = (if length prompt > 1000
                    then result\<lparr> warnings := warnings result @ [msg_very_long] \<rparr>
                    else result);
          result = (if \<not> includes_str prompt ''function'' \<and> \<not> includes_str prompt ''class'' \<and>
                       \<not> includes_str prompt ''component'' \<and> \<not> includes_str prompt ''interface''
                    then result\<lparr> warnings := warnings result @ [msg_code_type] \<rparr>
                    else result);
          hasLanguage = list_ex (\<lambda>lang. includes_str (toLowerCase prompt) lang) commonLanguages;
          result = (if \<not> hasLanguage
                    then result\<lparr> suggestions := suggestions result @ [msg_language] \<rparr>
                    else result);
          result = (if endsWith prompt ''...'' \<or> endsWith prompt ''create'' \<or>
                       endsWith prompt ''generate''
                    then result\<lparr> suggestions := suggestions result @
                           map (\<lambda>c. ''Did you mean to say '' @ [CHR 0x22] @ c @ [CHR 0x22] @ ''?'')
                               (suggestCompletion tokenize prompt) \<rparr>
                    else result)
      in result)"

section \<open>The task extractor (taskExtraction.ts)\<close>

datatype TaskType =
  CODE_GENERATION | DOCUMENTATION | TESTING | OPTIMIZATION | SECURITY | DEPLOYMENT

text \<open>A value of a task's \<open>context: Record<string, any>\<close>.\<close>

datatype ContextValue = Undefined | Str string | StrList "string list"

definition optional :: "string option \<Rightarrow> ContextValue" where
  "optional v = (case v of None \<Rightarrow> Undefined | Some s \<Rightarrow> Str s)"

record Task =
  id_t :: string
  type_t :: TaskType
  description :: string
  dependencies :: "string list"
  estimatedComplexity :: rat
  context_t :: "(string \<times> ContextValue) list"

text \<open>
  \<open>Date.now()\<close>: the clock is a parameter, \<open>clock k\<close> being what the \<open>k\<close>-th call of a
  run returns; the number of calls made so far is threaded through the run. Nothing is
  assumed of the clock: it may stand still over a whole run or tick between two calls.
\<close>

definition Date_now :: "(nat \<Rightarrow> nat) \<Rightarrow> nat \<Rightarrow> nat \<times> nat" where
  "Date_now clock k = (clock k, Suc k)"

text \<open>A template literal renders \<open>undefined\<close> as the word.\<close>

definition template :: "string option \<Rightarrow> string" where
  "template v = (case v of None \<Rightarrow> ''undefined'' | Some s \<Rightarrow> s)"

definition createCodeGenerationTask ::
  "(nat \<Rightarrow> nat) \<Rightarrow> nat \<Rightarrow> ProcessedPrompt \<Rightarrow> Task \<times> nat" where
  "createCodeGenerationTask clock k processedPrompt =
     (let (t1, k) = Date_now clock k
      in (\<lparr> id_t = ''code_gen_'' @ string_of_nat t1,
             type_t = CODE_GENERATION,
             description = ''Generate '' @ template (language (context_pp processedPrompt)) @
               '' code based on the prompt: '' @ originalPrompt processedPrompt,
             dependencies = [],
             estimatedComplexity = complexity processedPrompt,
             context_t =
               [(''language'', optional (language (context_pp processedPrompt))),
                (''framework'', optional (framework (context_pp processedPrompt))),
                (''dependencies'', StrList (dependencies_ctx (context_pp processedPrompt)))] \<rparr>,
          k))"

definition createDocumentationTask ::
  "(nat \<Rightarrow> nat) \<Rightarrow> nat \<Rightarrow> ProcessedPrompt \<Rightarrow> Task \<times> nat" where
  "createDocumentationTask clock k processedPrompt =
     (let (t1, k) = Date_now clock k;
          (t2, k) = Date_now clock k
      in (\<lparr> id_t = ''docs_'' @ string_of_nat t1,
             type_t = DOCUMENTATION,
             description = ''Generate documentation for the generated code'',
             dependencies = [''code_gen_'' @ string_of_nat t2],
             estimatedComplexity = max (complexity processedPrompt - 2) 1,
             context_t =
               [(''language'', optional (language (context_pp processedPrompt))),
                (''framework'', optional (framework (context_pp processedPrompt)))] \<rparr>,
          k))"

definition createTestingTask ::
  "(nat \<Rightarrow> nat) \<Rightarrow> nat \<Rightarrow> ProcessedPrompt \<Rightarrow> Task \<times> nat" where
  "createTestingTask clock k processedPrompt =
     (let (t1, k) = Date_now clock k;
          (t2, k) = Date_now clock k
      in (\<lparr> id_t = ''test_'' @ string_of_nat t1,
             type_t = TESTING,
             description = ''Generate tests for the generated code'',
             dependencies = [''code_gen_'' @ string_of_nat t2],
             estimatedComplexity = complexity processedPrompt,
             context_t =
               [(''language'', optional (language (context_pp processedPrompt))),
                (''framework'', optional (framework (context_pp processedPrompt)))] \<rparr>,
          k))"

definition createOptimizationTask ::
  "(nat \<Rightarrow> nat) \<Rightarrow> nat \<Rightarrow> ProcessedPrompt \<Rightarrow> Task \<times> nat" where
  "createOptimizationTask clock k processedPrompt =
     (let (t1, k) = Date_now clock k;
          (t2, k) = Date_now clock k;
          (t3, k) = Date_now clock k
      in (\<lparr> id_t = ''opt_'' @ string_of_nat t1,
             type_t = OPTIMIZATION,
             description = ''Optimize the generated code for performance'',
             dependencies = [''code_gen_'' @ string_of_nat t2, ''test_'' @ string_of_nat t3],
             estimatedComplexity = complexity processedPrompt + 1,
             context_t =
               [(''language'', optional (language (context_pp processedPrompt))),
                (''framework'', optional (framework (context_pp processedPrompt)))] \<rparr>,
          k))"

definition createSecurityTask ::
  "(nat \<Rightarrow> nat) \<Rightarrow> nat \<Rightarrow> ProcessedPrompt \<Rightarrow> Task \<times> nat" where
  "createSecurityTask clock k processedPrompt =
     (let (t1, k) = Date_now clock k;
          (t2, k) = Date_now clock k;
          (t3, k) = Date_now clock k
      in (\<lparr> id_t = ''security_'' @ string_of_nat t1,
             type_t = SECURITY,
             description = ''Implement security measures and validate the generated code'',
             dependencies = [''code_gen_'' @ string_of_nat t2, ''opt_'' @ string_of_nat t3],
             estimatedComplexity = complexity processedPrompt + 2,
             context_t =
               [(''language'', optional (language (context_pp processedPrompt))),
                (''framework'', optional (framework (context_pp processedPrompt))),
                (''securityChecks'', StrList [''input_validation'', ''authentication'',
                   ''authorization'', ''data_sanitization'', ''encryption''])] \<rparr>,
          k))"

definition createDeploymentTask ::
  "(nat \<Rightarrow> nat) \<Rightarrow> nat \<Rightarrow> ProcessedPrompt \<Rightarrow> Task \<times> nat" where
  "createDeploymentTask clock k processedPrompt =
     (let (t1, k) = Date_now clock k;
          (t2, k) = Date_now clock k;
          (t3, k) = Date_now clock k;
          (t4, k) = Date_now clock k
      in (\<lparr> id_t = ''deploy_'' @ string_of_nat t1,
             type_t = DEPLOYMENT,
             description = ''Prepare deployment configuration and scripts'',
             dependencies = [''code_gen_'' @ string_of_nat t2, ''test_'' @ string_of_nat t3,
               ''security_'' @ string_of_nat t4],
             estimatedComplexity = max (complexity processedPrompt - 1) 1,
             context_t =
               [(''platform'', optional (platform (context_pp processedPrompt))),
                (''framework'', optional (framework (context_pp processedPrompt)))] \<rparr>,
          k))"

definition containsKeywords :: "TokenizedPrompt \<Rightarrow> string list \<Rightarrow> bool" where
  "containsKeywords tp keywords =
     (let toks = map toLowerCase (tokens tp)
      in list_ex (\<lambda>keyword. includes_arr toks (toLowerCase keyword) \<or>
                             includes_str (join toks '' '') (toLowerCase keyword))
           keywords)"

definition complexityIndicators :: "string list" where
  "complexityIndicators = [''class'', ''interface'', ''function'', ''method'',
     ''api'', ''endpoint'', ''database'', ''async'']"

definition isComplexEnough :: "TokenizedPrompt \<Rightarrow> bool" where
  "isComplexEnough tp =
     (let complexityScore =
            length (filter (\<lambda>token. includes_arr complexityIndicators (toLowerCase token))
                           (tokens tp))
      in complexityScore \<ge> 2)"

definition sensitiveKeywords :: "string list" where
  "sensitiveKeywords = [''user'', ''password'', ''auth'', ''token'', ''credential'',
     ''payment'', ''credit'', ''personal'', ''private'', ''sensitive'']"

definition containsSensitiveOperations :: "TokenizedPrompt \<Rightarrow> bool" where
  "containsSensitiveOperations tp = containsKeywords tp sensitiveKeywords"

definition docKeywords :: "string list" where
  "docKeywords = [''document'', ''documentation'', ''docs'', ''comment'', ''api'']"

definition testKeywords :: "string list" where
  "testKeywords = [''test'', ''testing'', ''unit test'', ''integration test'', ''e2e'']"

definition optKeywords :: "string list" where
  "optKeywords = [''optimize'', ''performance'', ''efficient'', ''fast'', ''scale'']"

definition securityKeywords :: "string list" where
  "securityKeywords = [''secure'', ''security'', ''authentication'', ''authorization'',
     ''encrypt'']"

definition deployKeywords :: "string list" where
  "deployKeywords = [''deploy'', ''deployment'', ''ci/cd'', ''pipeline'', ''release'']"

definition requiresDocumentation :: "TokenizedPrompt \<Rightarrow> bool" where
  "requiresDocumentation tp = (containsKeywords tp docKeywords \<or> isComplexEnough tp)"

definition requiresTesting :: "TokenizedPrompt \<Rightarrow> bool" where
  "requiresTesting tp = (containsKeywords tp testKeywords \<or> isComplexEnough tp)"

definition requiresOptimization :: "TokenizedPrompt \<Rightarrow> bool" where
  "requiresOptimization tp = containsKeywords tp optKeywords"

definition requiresSecurity :: "TokenizedPrompt \<Rightarrow> bool" where
  "requiresSecurity tp =
     (containsKeywords tp securityKeywords \<or> containsSensitiveOperations tp)"

definition requiresDeployment :: "TokenizedPrompt \<Rightarrow> bool" where
  "requiresDeployment tp = containsKeywords tp deployKeywords"

text \<open>
  \<open>addDependencyIfExists(task, allTasks, dependencyType)\<close>. The \<open>task\<close> it mutates is an
  element of \<open>allTasks\<close>: the array is the store and the task is named by its index \<open>i\<close>,
  which \<open>forEach\<close> keeps below the length.
\<close>

definition addDependencyIfExists :: "nat \<Rightarrow> Task list \<Rightarrow> TaskType \<Rightarrow> Task list" where
  "addDependencyIfExists i allTasks dependencyType =
     (let task = allTasks ! i
      in case find (\<lambda>t. type_t t = dependencyType) allTasks of
           None \<Rightarrow> allTasks
         | Some dependency \<Rightarrow>
             if \<not> includes_arr (dependencies task) (id_t dependency)
             then allTasks[i := task\<lparr> dependencies := dependencies task @ [id_t dependency] \<rparr>]
             else allTasks)"

text \<open>The body of the \<open>forEach\<close> of \<open>establishTaskDependencies\<close>, at index \<open>i\<close>.\<close>

definition establishStep :: "Task list \<Rightarrow> nat \<Rightarrow> Task list" where
  "establishStep tasks i =
     (case type_t (tasks ! i) of
        CODE_GENERATION \<Rightarrow> tasks
      | DOCUMENTATION \<Rightarrow> addDependencyIfExists i tasks CODE_GENERATION
      | TESTING \<Rightarrow> addDependencyIfExists i tasks CODE_GENERATION
      | OPTIMIZATION \<Rightarrow>
          addDependencyIfExists i (addDependencyIfExists i tasks CODE_GENERATION) TESTING
      | SECURITY \<Rightarrow>
          addDependencyIfExists i (addDependencyIfExists i tasks CODE_GENERATION) OPTIMIZATION
      | DEPLOYMENT \<Rightarrow>
          addDependencyIfExists i
            (addDependencyIfExists i (addDependencyIfExists i tasks CODE_GENERATION) TESTING)
            SECURITY)"

definition establishTaskDependencies :: "Task list \<Rightarrow> Task list" where
  "establishTaskDependencies tasks = foldl establishStep tasks [0..<length tasks]"

text \<open>
  \<open>if (cond) { tasks.push(create(processedPrompt)); }\<close> on the pair of the array and the
  number of clock readings made so far.
\<close>

definition pushIf ::
  "bool \<Rightarrow> (nat \<Rightarrow> Task \<times> nat) \<Rightarrow> Task list \<times> nat \<Rightarrow> Task list \<times> nat" where
  "pushIf cond create s =
     (if cond then (let (t, k) = create (snd s) in (fst s @ [t], k)) else s)"

text \<open>
  \<open>extractTasks\<close> up to the call of \<open>establishTaskDependencies\<close>: the tasks pushed, in
  the order of the source. No statement of the \<open>try\<close> block throws, so its \<open>catch\<close> is
  never entered and \<open>extractTasks\<close> returns the array.
\<close>

definition pushTasks :: "(nat \<Rightarrow> nat) \<Rightarrow> nat \<Rightarrow> ProcessedPrompt \<Rightarrow> Task list \<times> nat" where
  "pushTasks clock k processedPrompt =
     (let tp = tokenized processedPrompt;
          s = ([], k);
          s = pushIf True (\<lambda>k. createCodeGenerationTask clock k processedPrompt) s;
          s = pushIf (requiresDocumentation tp)
                (\<lambda>k. createDocumentationTask clock k processedPrompt) s;
          s = pushIf (requiresTesting tp)
                (\<lambda>k. createTestingTask clock k processedPrompt) s;
          s = pushIf (requiresOptimization tp)
                (\<lambda>k. createOptimizationTask clock k processedPrompt) s;
          s = pushIf (requiresSecurity tp)
                (\<lambda>k. createSecurityTask clock k processedPrompt) s;
          s = pushIf (requiresDeployment tp)
                (\<lambda>k. createDeploymentTask clock k processedPrompt) s
      in s)"

definition extractTasks :: "(nat \<Rightarrow> nat) \<Rightarrow> nat \<Rightarrow> ProcessedPrompt \<Rightarrow> Task list" where
  "extractTasks clock k processedPrompt =
     establishTaskDependencies (fst (pushTasks clock k processedPrompt))"

section \<open>Notions the properties are stated with\<close>

subsection \<open>The dependency graph of a task list\<close>

text \<open>
  Task \<open>a\<close> depends on task \<open>b\<close> of the same list when the id of \<open>b\<close> is one of the
  strings in \<open>a.dependencies\<close>: an edge is a dependency id that resolves to a task of the
  list. \<open>kindEdges\<close> reads the same edges between the kinds of the tasks.
\<close>

definition dependsOn :: "Task list \<Rightarrow> (Task \<times> Task) set" where
  "dependsOn ts = set [(a, b). a \<leftarrow> ts, b \<leftarrow> ts, id_t b \<in> set (dependencies a)]"

definition kindEdges :: "Task list \<Rightarrow> (TaskType \<times> TaskType) set" where
  "kindEdges ts = (\<lambda>(a, b). (type_t a, type_t b)) ` dependsOn ts"

text \<open>What a task carries apart from its id and the ids it depends on.\<close>

definition taskContent ::
  "Task \<Rightarrow> TaskType \<times> string \<times> rat \<times> (string \<times> ContextValue) list" where
  "taskContent t = (type_t t, description t, estimatedComplexity t, context_t t)"

text \<open>
  A run of the decomposition on a text: \<open>processPrompt\<close>, then \<open>extractTasks\<close> on what it
  returned. The lexical analysis \<open>nlp\<close> is fixed; the clock and the number of readings
  already made belong to the run.
\<close>

definition decompose ::
  "(string \<Rightarrow> string + TokenizedPrompt) \<Rightarrow> (nat \<Rightarrow> nat) \<Rightarrow> nat \<Rightarrow> string \<Rightarrow>
   string + ProcessedPrompt \<times> Task list" where
  "decompose nlp clock k prompt =
     (case processPrompt nlp prompt of
        Inl message \<Rightarrow> Inl message
      | Inr processedPrompt \<Rightarrow> Inr (processedPrompt, extractTasks clock k processedPrompt))"

subsection \<open>The wiring of one task\<close>

text \<open>
  The prefix of the id each \<open>create...Task\<close> gives its task, the kinds whose tasks
  \<open>establishTaskDependencies\<close> looks up for a task of a kind, in the order of its
  \<open>switch\<close>, and a rank of the kinds that these lookups descend.
\<close>

definition idPrefix :: "TaskType \<Rightarrow> string" where
  "idPrefix ty =
     (case ty of
        CODE_GENERATION \<Rightarrow> ''code_gen_''
      | DOCUMENTATION \<Rightarrow> ''docs_''
      | TESTING \<Rightarrow> ''test_''
      | OPTIMIZATION \<Rightarrow> ''opt_''
      | SECURITY \<Rightarrow> ''security_''
      | DEPLOYMENT \<Rightarrow> ''deploy_'')"

definition requiredKinds :: "TaskType \<Rightarrow> TaskType list" where
  "requiredKinds ty =
     (case ty of
        CODE_GENERATION \<Rightarrow> []
      | DOCUMENTATION \<Rightarrow> [CODE_GENERATION]
      | TESTING \<Rightarrow> [CODE_GENERATION]
      | OPTIMIZATION \<Rightarrow> [CODE_GENERATION, TESTING]
      | SECURITY \<Rightarrow> [CODE_GENERATION, OPTIMIZATION]
      | DEPLOYMENT \<Rightarrow> [CODE_GENERATION, TESTING, SECURITY])"

definition kindRank :: "TaskType \<Rightarrow> nat" where
  "kindRank ty =
     (case ty of
        CODE_GENERATION \<Rightarrow> 0
      | DOCUMENTATION \<Rightarrow> 1
      | TESTING \<Rightarrow> 1
      | OPTIMIZATION \<Rightarrow> 2
      | SECURITY \<Rightarrow> 3
      | DEPLOYMENT \<Rightarrow> 4)"

text \<open>
  \<open>addDependencyIfExists\<close> and the \<open>switch\<close> as functions of the task alone, \<open>allTasks\<close>
  being only read; \<open>establishTaskDependencies\<close> is proved to map \<open>wire\<close> over the array.
\<close>

definition addDep :: "Task list \<Rightarrow> Task \<Rightarrow> TaskType \<Rightarrow> Task" where
  "addDep allTasks task ty =
     (case find (\<lambda>t. type_t t = ty) allTasks of
        None \<Rightarrow> task
      | Some dependency \<Rightarrow>
          if \<not> includes_arr (dependencies task) (id_t dependency)
          then task\<lparr> dependencies := dependencies task @ [id_t dependency] \<rparr>
          else task)"

definition wire :: "Task list \<Rightarrow> Task \<Rightarrow> Task" where
  "wire allTasks task = foldl (addDep allTasks) task (requiredKinds (type_t task))"

definition skel :: "Task list \<Rightarrow> (TaskType \<times> string) list" where
  "skel ts = map (\<lambda>t. (type_t t, id_t t)) ts"

definition emittedKinds :: "TokenizedPrompt \<Rightarrow> TaskType list" where
  "emittedKinds tp =
     CODE_GENERATION #
     (if requiresDocumentation tp then [DOCUMENTATION] else []) @
     (if requiresTesting tp then [TESTING] else []) @
     (if requiresOptimization tp then [OPTIMIZATION] else []) @
     (if requiresSecurity tp then [SECURITY] else []) @
     (if requiresDeployment tp then [DEPLOYMENT] else [])"

definition wellFormed :: "Task \<Rightarrow> bool" where
  "wellFormed t \<longleftrightarrow>
     prefix (idPrefix (type_t t)) (id_t t) \<and>
     list_all (\<lambda>d. list_ex (\<lambda>ty. prefix (idPrefix ty) d) (requiredKinds (type_t t)))
       (dependencies t)"

subsection \<open>The detection and the constraint extraction, in the words of the specification\<close>

text \<open>
  "Take the first match in entity order": the first technology entity, lower-cased, that
  is a value of the lookup list.
\<close>

definition spec_first_entity_match :: "string list \<Rightarrow> string list \<Rightarrow> string option" where
  "spec_first_entity_match lookup ents = find (\<lambda>e. e \<in> set lookup) (map toLowerCase ents)"

text \<open>
  "Locate the first occurrence" of a trigger phrase, "find the next sentence terminator
  after it" (from the end of that occurrence on), and capture the span between the end of
  the phrase and the terminator, trimmed; a phrase that does not occur, or that no
  terminator follows, gives nothing.
\<close>

definition spec_first_occurrence :: "string \<Rightarrow> string \<Rightarrow> nat option" where
  "spec_first_occurrence txt phrase =
     find (\<lambda>i. take (length phrase) (drop i txt) = phrase) [0..<Suc (length txt)]"

definition spec_next_terminator :: "string \<Rightarrow> nat \<Rightarrow> nat option" where
  "spec_next_terminator txt i = find (\<lambda>j. txt ! j = CHR ''.'') [i..<length txt]"

definition spec_constraint :: "string \<Rightarrow> string \<Rightarrow> string list" where
  "spec_constraint txt phrase =
     (case spec_first_occurrence txt phrase of
        None \<Rightarrow> []
      | Some i \<Rightarrow>
          (case spec_next_terminator txt (i + length phrase) of
             None \<Rightarrow> []
           | Some e \<Rightarrow> [trim (map ((!) txt) [i + length phrase..<e])]))"

subsection \<open>Concrete prompts\<close>

text \<open>
  Scenario B of the specification, as a word tokenizer splits it; the entity buckets are
  what an entity recogniser may return for it.
\<close>

definition scenarioB :: TokenizedPrompt where
  "scenarioB =
     \<lparr> tokens = [''Build'', ''a'', ''secure'', ''authenticated'', ''REST'', ''API'', ''in'',
         ''TypeScript'', ''with'', ''Express'', ''that'', ''must'', ''be'', ''PCI'',
         ''compliant'', ''and'', ''needs'', ''extensive'', ''testing''],
       tags = [],
       entities = \<lparr> technologies = [''TypeScript'', ''Express''], actions = [''Build''],
                    nouns = [''REST API''], numbers = [] \<rparr> \<rparr>"

definition scenarioB_text :: string where
  "scenarioB_text = ''Build a secure authenticated REST API in TypeScript with Express that must be PCI compliant and needs extensive testing''"

definition secureApi :: TokenizedPrompt where
  "secureApi =
     \<lparr> tokens = [''secure'', ''api''], tags = [],
       entities = \<lparr> technologies = [], actions = [], nouns = [''api''], numbers = [] \<rparr> \<rparr>"

section \<open>Strings: lower-casing, joining, searching\<close>

lemma includes_arr_iff [simp]: "includes_arr xs x \<longleftrightarrow> x \<in> set xs"
  by (simp add: includes_arr_def)

lemma toLowerCase_char_space: "toLowerCase_char c = CHR '' '' \<longleftrightarrow> c = CHR '' ''"
proof
  assume eq: "toLowerCase_char c = CHR '' ''"
  show "c = CHR '' ''"
  proof (rule ccontr)
    assume ne: "c \<noteq> CHR '' ''"
    let ?n = "of_char c :: nat"
    from eq ne have up: "(65 \<le> ?n \<and> ?n \<le> 90) \<or> (192 \<le> ?n \<and> ?n \<le> 222 \<and> ?n \<noteq> 215)"
      and "char_of (?n + 32) = CHR '' ''"
      by (auto simp: toLowerCase_char_def Let_def split: if_splits)
    then have "(of_char (char_of (?n + 32) :: char) :: nat) = of_char CHR '' ''" by simp
    then have "(?n + 32) mod 256 = 32" by (simp add: of_char_of)
    with up show False by auto
  qed
next
  assume "c = CHR '' ''"
  then show "toLowerCase_char c = CHR '' ''" by (simp add: toLowerCase_char_def)
qed

lemma toLowerCase_space_free:
  "CHR '' '' \<in> set (toLowerCase t) \<longleftrightarrow> CHR '' '' \<in> set t"
proof -
  have "\<And>x. (CHR '' '' = toLowerCase_char x) = (x = CHR '' '')"
    using toLowerCase_char_space by metis
  then show ?thesis by (auto simp: toLowerCase_def image_iff)
qed

lemma toLowerCase_join:
  "toLowerCase (join ts sep) = join (map toLowerCase ts) (toLowerCase sep)"
  by (induction ts sep rule: join.induct) (simp_all add: toLowerCase_def)

lemma toLowerCase_blank: "toLowerCase '' '' = '' ''"
  by (simp add: toLowerCase_def toLowerCase_char_def)

lemma sublist_join: "t \<in> set ts \<Longrightarrow> sublist t (join ts sep)"
proof (induction ts sep rule: join.induct)
  case (1 sep)
  then show ?case by simp
next
  case (2 x sep)
  then show ?case by simp
next
  case (3 x y ys sep)
  show ?case
  proof (cases "t = x")
    case True
    then show ?thesis by simp
  next
    case False
    with 3 have "sublist t (join (y # ys) sep)" by simp
    then obtain ps ss where "join (y # ys) sep = ps @ t @ ss" by (auto simp: sublist_def)
    then have "join (x # y # ys) sep = (x @ sep @ ps) @ t @ ss" by simp
    then show ?thesis unfolding sublist_def by blast
  qed
qed

lemma sublist_transitive: "sublist xs ys \<Longrightarrow> sublist ys zs \<Longrightarrow> sublist xs zs"
proof -
  assume "sublist xs ys" "sublist ys zs"
  then obtain a b c d where "ys = a @ xs @ b" "zs = c @ ys @ d"
    unfolding sublist_def by blast
  then have "zs = (c @ a) @ xs @ (b @ d)" by simp
  then show ?thesis unfolding sublist_def by blast
qed

lemma prefix_iff_take: "prefix p xs \<longleftrightarrow> take (length p) xs = p"
  by (metis append_eq_conv_conj prefix_def take_is_prefix)

lemma find_map: "find P (map f xs) = map_option f (find (\<lambda>x. P (f x)) xs)"
  by (induction xs) simp_all

lemma indexOf_scan_find:
  "indexOf_scan p cs i =
   map_option (\<lambda>j. j + i) (find (\<lambda>k. prefix p (drop k cs)) [0..<Suc (length cs)])"
proof (induction cs arbitrary: i)
  case Nil
  then show ?case by simp
next
  case (Cons c cs)
  have "[0..<Suc (Suc (length cs))] = 0 # [Suc 0..<Suc (Suc (length cs))]"
    by (rule upt_conv_Cons) simp
  also have "[Suc 0..<Suc (Suc (length cs))] = map Suc [0..<Suc (length cs)]"
    by (rule map_Suc_upt [symmetric])
  finally have upt: "[0..<Suc (Suc (length cs))] = 0 # map Suc [0..<Suc (length cs)]" .
  show ?case
    unfolding length_Cons upt
    by (simp add: Cons.IH find_map option.map_comp comp_def del: upt_Suc)
qed

lemma indexOf_spec: "indexOf txt p = spec_first_occurrence txt p"
  by (simp add: indexOf_def indexOf_from_def spec_first_occurrence_def indexOf_scan_find
      prefix_iff_take option.map_ident del: upt_Suc)

lemma find_snoc_False: "\<not> P x \<Longrightarrow> find P (xs @ [x]) = find P xs"
  by (induction xs) simp_all

lemma find_upt_last_False:
  "\<not> P n \<Longrightarrow> find P [0..<Suc n] = find P [0..<n]"
  by (simp add: find_snoc_False)

lemma take_drop_nth_upt:
  assumes "b \<le> length xs"
  shows "take (b - a) (drop a xs) = map ((!) xs) [a..<b]"
proof (rule nth_equalityI)
  show "length (take (b - a) (drop a xs)) = length (map ((!) xs) [a..<b])"
    using assms by simp
next
  fix k assume "k < length (take (b - a) (drop a xs))"
  then have "k < b - a" by simp
  then show "take (b - a) (drop a xs) ! k = map ((!) xs) [a..<b] ! k"
    using assms by simp
qed

lemma find_SomeD: "find P xs = Some x \<Longrightarrow> x \<in> set xs \<and> P x"
  by (induction xs) (auto split: if_splits)

lemma indexOf_from_dot_spec:
  assumes "i \<le> length txt"
  shows "indexOf_from txt ''.'' i = spec_next_terminator txt i"
proof -
  let ?n = "length txt - i"
  have "indexOf_from txt ''.'' i =
      map_option (\<lambda>j. j + i) (find (\<lambda>k. prefix ''.'' (drop (k + i) txt)) [0..<Suc ?n])"
    using assms by (simp add: indexOf_from_def indexOf_scan_find min_def del: upt_Suc)
  also have "find (\<lambda>k. prefix ''.'' (drop (k + i) txt)) [0..<Suc ?n] =
      find (\<lambda>k. prefix ''.'' (drop (k + i) txt)) [0..<?n]"
    using assms by (intro find_upt_last_False) simp
  also have "\<dots> = find (\<lambda>k. txt ! (k + i) = CHR ''.'') [0..<?n]"
  proof (rule find_cong [OF refl])
    fix k assume "k \<in> set [0..<?n]"
    then have "k + i < length txt" by auto
    then have "drop (k + i) txt = txt ! (k + i) # drop (Suc (k + i)) txt"
      by (simp add: Cons_nth_drop_Suc)
    then show "prefix ''.'' (drop (k + i) txt) = (txt ! (k + i) = CHR ''.'')"
      by auto
  qed
  also have "map_option (\<lambda>j. j + i) \<dots> =
      find (\<lambda>j. txt ! j = CHR ''.'') (map (\<lambda>j. j + i) [0..<?n])"
    by (simp add: find_map)
  also have "map (\<lambda>j. j + i) [0..<?n] = [i..<length txt]"
    using assms by (simp add: map_add_upt)
  finally show ?thesis by (simp add: spec_next_terminator_def)
qed

lemma find_append_all_False: "\<forall>x\<in>set xs. \<not> P x \<Longrightarrow> find P (xs @ ys) = find P ys"
  by (induction xs) simp_all

lemma first_occurrence_facts:
  assumes "spec_first_occurrence txt phrase = Some i"
  shows "i + length phrase \<le> length txt"
    and "\<And>j. j < length phrase \<Longrightarrow> txt ! (i + j) = phrase ! j"
proof -
  from assms have i: "i \<le> length txt" "take (length phrase) (drop i txt) = phrase"
    unfolding spec_first_occurrence_def by (auto dest!: find_SomeD simp del: upt_Suc)
  from arg_cong [OF i(2), of length] i(1) show len: "i + length phrase \<le> length txt"
    by (simp add: min_def split: if_splits)
  fix j assume j: "j < length phrase"
  have "phrase ! j = take (length phrase) (drop i txt) ! j" by (simp add: i(2))
  also have "\<dots> = txt ! (i + j)" using j len by simp
  finally show "txt ! (i + j) = phrase ! j" by simp
qed

lemma next_terminator_after_phrase:
  assumes occ: "spec_first_occurrence txt phrase = Some i"
    and nodot: "CHR ''.'' \<notin> set phrase"
  shows "spec_next_terminator txt i = spec_next_terminator txt (i + length phrase)"
proof -
  note f = first_occurrence_facts [OF occ]
  have "[i..<length txt] = [i..<i + length phrase] @ [i + length phrase..<length txt]"
    using upt_add_eq_append [of i "i + length phrase" "length txt - (i + length phrase)"] f(1)
    by simp
  moreover have "\<forall>j\<in>set [i..<i + length phrase]. \<not> txt ! j = CHR ''.''"
  proof
    fix j assume "j \<in> set [i..<i + length phrase]"
    then have j: "i \<le> j" "j - i < length phrase" by auto
    with f(2) [of "j - i"] have "txt ! j = phrase ! (j - i)" by simp
    with j(2) nodot show "\<not> txt ! j = CHR ''.''" by (metis nth_mem)
  qed
  ultimately show ?thesis
    unfolding spec_next_terminator_def by (simp only: find_append_all_False)
qed

lemma span_after_phrase:
  assumes occ: "spec_first_occurrence txt phrase = Some i"
    and dot: "spec_next_terminator txt (i + length phrase) = Some e"
  shows "substring txt (i + length phrase) e = map ((!) txt) [i + length phrase..<e]"
proof -
  from dot have e: "i + length phrase \<le> e" "e < length txt"
    unfolding spec_next_terminator_def by (auto dest!: find_SomeD)
  then show ?thesis
    by (simp add: substring_def min_def max_def take_drop_nth_upt)
qed

section \<open>The constraint extraction, the keyword search and the scores\<close>

lemma pushConstraint_spec:
  assumes "CHR ''.'' \<notin> set phrase"
  shows "pushConstraint txt cs phrase = cs @ spec_constraint txt phrase"
proof (cases "spec_first_occurrence txt phrase")
  case None
  then show ?thesis by (simp add: pushConstraint_def spec_constraint_def indexOf_spec)
next
  case (Some i)
  from first_occurrence_facts(1) [OF Some] have i: "i \<le> length txt" by simp
  have code: "indexOf_from txt ''.'' i = spec_next_terminator txt (i + length phrase)"
    using i next_terminator_after_phrase [OF Some assms] by (simp add: indexOf_from_dot_spec)
  show ?thesis
  proof (cases "spec_next_terminator txt (i + length phrase)")
    case None
    with Some code show ?thesis
      by (simp add: pushConstraint_def spec_constraint_def indexOf_spec)
  next
    case (Some e)
    with \<open>spec_first_occurrence txt phrase = Some i\<close> code show ?thesis
      by (simp add: pushConstraint_def spec_constraint_def indexOf_spec span_after_phrase)
  qed
qed

lemma foldl_pushConstraint:
  "\<forall>p\<in>set ps. CHR ''.'' \<notin> set p \<Longrightarrow>
   foldl (pushConstraint txt) cs ps = cs @ concat (map (spec_constraint txt) ps)"
  by (induction ps arbitrary: cs) (simp_all add: pushConstraint_spec)

lemma toLowerCase_python: "toLowerCase ''python'' = ''python''"
  by (simp add: toLowerCase_def toLowerCase_char_def)

lemma toLowerCase_javascript: "toLowerCase ''javascript'' = ''javascript''"
  by (simp add: toLowerCase_def toLowerCase_char_def)

lemma three_halves_not_int: "(3 / 2 :: rat) \<notin> \<int>"
proof
  assume "(3 / 2 :: rat) \<in> \<int>"
  then obtain z :: int where "3 / 2 = (of_int z :: rat)" by (auto elim: Ints_cases)
  then have "(of_int (2 * z) :: rat) = of_int 3" by simp
  then have "2 * z = 3" by (simp only: of_int_eq_iff)
  then show False by presburger
qed

lemma containsKeywords_sublist:
  "containsKeywords tp kws \<longleftrightarrow>
   (\<exists>kw\<in>set kws. sublist (toLowerCase kw) (toLowerCase (join (tokens tp) '' '')))"
proof -
  have "sublist k (join (map toLowerCase (tokens tp)) '' '')"
    if "k \<in> toLowerCase ` set (tokens tp)" for k
    using that sublist_join [of k "map toLowerCase (tokens tp)"] by simp
  then show ?thesis
    by (auto simp: containsKeywords_def Let_def list_ex_iff includes_str_def toLowerCase_join
        toLowerCase_blank)
qed

lemma keywords_lower_all:
  "list_all (\<lambda>kw. toLowerCase kw = kw)
     (docKeywords @ testKeywords @ optKeywords @ securityKeywords @ sensitiveKeywords @
      deployKeywords)"
  by code_simp

lemma keywords_lower:
  assumes "kw \<in> set docKeywords \<union> set testKeywords \<union> set optKeywords \<union>
             set securityKeywords \<union> set sensitiveKeywords \<union> set deployKeywords"
  shows "toLowerCase kw = kw"
proof -
  from assms have "kw \<in> set (docKeywords @ testKeywords @ optKeywords @ securityKeywords @
      sensitiveKeywords @ deployKeywords)"
    by (simp only: set_append Un_iff) blast
  with keywords_lower_all show ?thesis
    unfolding list_all_iff by (rule bspec)
qed

lemma containsKeywords_hit:
  assumes "kw \<in> set kws" and "toLowerCase kw = kw"
    and "sublist kw (toLowerCase (join (tokens tp) '' ''))"
  shows "containsKeywords tp kws"
  unfolding containsKeywords_sublist using assms by (intro bexI [of _ kw]) simp_all

lemma priorityFrom_cases:
  "priorityFrom urgent low tp =
     5 + (if \<exists>t\<in>set (tokens tp). toLowerCase t \<in> set urgent then 2 else 0)
       - (if \<exists>t\<in>set (tokens tp). toLowerCase t \<in> set low then 2 else 0)"
  by (simp add: priorityFrom_def list_ex_iff)

section \<open>The task graph\<close>

subsection \<open>\<open>establishTaskDependencies\<close> wires each task on its own\<close>

lemma idPrefix_disjoint:
  "prefix (idPrefix ty) s \<Longrightarrow> prefix (idPrefix ty') s \<Longrightarrow> ty = ty'"
  by (cases ty; cases ty'; auto simp: idPrefix_def prefix_def)

lemma addDependencyIfExists_upd:
  "i < length ts \<Longrightarrow> addDependencyIfExists i ts ty = ts[i := addDep ts (ts ! i) ty]"
  by (simp add: addDependencyIfExists_def addDep_def Let_def split: option.splits)

lemma find_skel:
  "skel ts = skel ts' \<Longrightarrow>
   map_option id_t (find (\<lambda>t. type_t t = ty) ts) = map_option id_t (find (\<lambda>t. type_t t = ty) ts')"
proof (induction ts arbitrary: ts')
  case Nil
  then show ?case by (simp add: skel_def)
next
  case (Cons a ts)
  then obtain b us where ts': "ts' = b # us" by (cases ts') (auto simp: skel_def)
  with Cons.prems have ab: "type_t a = type_t b" "id_t a = id_t b" and rest: "skel ts = skel us"
    by (auto simp: skel_def)
  show ?case using Cons.IH [OF rest] ab by (simp add: ts')
qed

lemma addDep_alt:
  "addDep ts t ty =
     (case map_option id_t (find (\<lambda>x. type_t x = ty) ts) of
        None \<Rightarrow> t
      | Some d \<Rightarrow> if d \<in> set (dependencies t) then t
                  else t\<lparr> dependencies := dependencies t @ [d] \<rparr>)"
  by (simp add: addDep_def split: option.splits)

lemma addDep_skel_cong: "skel ts = skel ts' \<Longrightarrow> addDep ts t ty = addDep ts' t ty"
  by (simp add: addDep_alt find_skel [of ts ts'])

lemma addDep_type [simp]: "type_t (addDep ts t ty) = type_t t"
  and addDep_id [simp]: "id_t (addDep ts t ty) = id_t t"
  by (simp_all add: addDep_def split: option.splits)

lemma foldl_addDep_type [simp]: "type_t (foldl (addDep ts) t ks) = type_t t"
  by (induction ks arbitrary: t) simp_all

lemma foldl_addDep_id [simp]: "id_t (foldl (addDep ts) t ks) = id_t t"
  by (induction ks arbitrary: t) simp_all

lemma wire_type [simp]: "type_t (wire ts t) = type_t t"
  and wire_id [simp]: "id_t (wire ts t) = id_t t"
  by (simp_all add: wire_def)

lemma skel_update:
  "i < length ts \<Longrightarrow> type_t t' = type_t (ts ! i) \<Longrightarrow> id_t t' = id_t (ts ! i) \<Longrightarrow>
   skel (ts[i := t']) = skel ts"
  by (simp add: skel_def map_update list_update_same_conv)

lemma addDep_update_cong:
  "i < length ts \<Longrightarrow> type_t t = type_t (ts ! i) \<Longrightarrow> id_t t = id_t (ts ! i) \<Longrightarrow>
   addDep (ts[i := t]) t' ty = addDep ts t' ty"
  by (rule addDep_skel_cong) (simp add: skel_update)

lemma establishStep_upd:
  "i < length ts \<Longrightarrow> establishStep ts i = ts[i := wire ts (ts ! i)]"
  by (cases "type_t (ts ! i)")
     (simp_all add: establishStep_def wire_def requiredKinds_def addDependencyIfExists_upd
        addDep_update_cong)

lemma foldl_establishStep:
  "k \<le> length ts \<Longrightarrow>
   foldl establishStep ts [0..<k] = map (wire ts) (take k ts) @ drop k ts"
proof (induction k)
  case 0
  then show ?case by simp
next
  case (Suc k)
  let ?m = "map (wire ts) (take k ts) @ drop k ts"
  from Suc.prems have k: "k < length ts" by simp
  have len: "length ?m = length ts" using k by simp
  have nth: "?m ! k = ts ! k" using k by (simp add: nth_append)
  have sk: "skel ?m = skel ts"
  proof -
    have "skel ?m = skel (take k ts) @ skel (drop k ts)" by (simp add: skel_def)
    also have "\<dots> = skel ts" by (simp add: skel_def flip: map_append)
    finally show ?thesis .
  qed
  have "addDep ?m = addDep ts"
    by (intro ext) (rule addDep_skel_cong [OF sk])
  then have w: "wire ?m (ts ! k) = wire ts (ts ! k)"
    by (simp only: wire_def)
  have "foldl establishStep ts [0..<Suc k] = establishStep ?m k"
    using Suc.IH k by simp
  also have "\<dots> = ?m[k := wire ts (ts ! k)]"
    using k len by (simp add: establishStep_upd nth w del: length_append length_map)
  also have "\<dots> = map (wire ts) (take (Suc k) ts) @ drop (Suc k) ts"
    using k by (simp add: list_update_append take_Suc_conv_app_nth Cons_nth_drop_Suc [symmetric])
  finally show ?case .
qed

lemma establishTaskDependencies_map: "establishTaskDependencies ts = map (wire ts) ts"
  by (simp add: establishTaskDependencies_def foldl_establishStep)


subsection \<open>The tasks \<open>extractTasks\<close> pushes\<close>

lemma fst_pushIf:
  "fst (pushIf c f s) = fst s @ (if c then [fst (f (snd s))] else [])"
  by (simp add: pushIf_def split: prod.splits)

lemma create_types [simp]:
  "type_t (fst (createCodeGenerationTask clock k pp)) = CODE_GENERATION"
  "type_t (fst (createDocumentationTask clock k pp)) = DOCUMENTATION"
  "type_t (fst (createTestingTask clock k pp)) = TESTING"
  "type_t (fst (createOptimizationTask clock k pp)) = OPTIMIZATION"
  "type_t (fst (createSecurityTask clock k pp)) = SECURITY"
  "type_t (fst (createDeploymentTask clock k pp)) = DEPLOYMENT"
  by (simp_all add: createCodeGenerationTask_def createDocumentationTask_def
      createTestingTask_def createOptimizationTask_def createSecurityTask_def
      createDeploymentTask_def Date_now_def)

lemma create_wellFormed [simp]:
  "wellFormed (fst (createCodeGenerationTask clock k pp))"
  "wellFormed (fst (createDocumentationTask clock k pp))"
  "wellFormed (fst (createTestingTask clock k pp))"
  "wellFormed (fst (createOptimizationTask clock k pp))"
  "wellFormed (fst (createSecurityTask clock k pp))"
  "wellFormed (fst (createDeploymentTask clock k pp))"
  by (simp_all add: wellFormed_def idPrefix_def requiredKinds_def
      createCodeGenerationTask_def createDocumentationTask_def
      createTestingTask_def createOptimizationTask_def createSecurityTask_def
      createDeploymentTask_def Date_now_def)

lemma create_root_dependencies [simp]:
  "dependencies (fst (createCodeGenerationTask clock k pp)) = []"
  by (simp add: createCodeGenerationTask_def Date_now_def)

lemma pushTasks_kinds:
  "map type_t (fst (pushTasks clock k pp)) = emittedKinds (tokenized pp)"
  by (simp add: pushTasks_def emittedKinds_def fst_pushIf Let_def)

lemma pushTasks_wellFormed:
  "list_all wellFormed (fst (pushTasks clock k pp))"
  by (simp add: pushTasks_def fst_pushIf Let_def)

lemma pushTasks_root:
  "\<exists>rest. fst (pushTasks clock k pp) = fst (createCodeGenerationTask clock k pp) # rest"
  by (simp add: pushTasks_def fst_pushIf Let_def pushIf_def split: prod.splits)

lemma distinct_emittedKinds: "distinct (emittedKinds tp)"
  by (simp add: emittedKinds_def)

lemma dependsOn_iff:
  "(a, b) \<in> dependsOn ts \<longleftrightarrow> a \<in> set ts \<and> b \<in> set ts \<and> id_t b \<in> set (dependencies a)"
  by (auto simp: dependsOn_def)

lemma set_dependencies_addDep:
  "set (dependencies (addDep ts t ty)) =
   set (dependencies t) \<union> set_option (map_option id_t (find (\<lambda>x. type_t x = ty) ts))"
  by (auto simp: addDep_def split: option.splits)

lemma set_dependencies_foldl_addDep:
  "set (dependencies (foldl (addDep ts) t ks)) =
   set (dependencies t) \<union>
   (\<Union>ty\<in>set ks. set_option (map_option id_t (find (\<lambda>x. type_t x = ty) ts)))"
  by (induction ks arbitrary: t) (auto simp: set_dependencies_addDep)

lemma find_by_type_distinct:
  "distinct (map type_t ts) \<Longrightarrow> b \<in> set ts \<Longrightarrow> find (\<lambda>x. type_t x = type_t b) ts = Some b"
  by (induction ts) auto

lemma find_by_type_Some:
  "find (\<lambda>x. type_t x = ty) ts = Some d \<Longrightarrow> d \<in> set ts \<and> type_t d = ty"
  by (induction ts) (auto split: if_splits)

lemma extractTasks_map:
  "extractTasks clock k pp =
   map (wire (fst (pushTasks clock k pp))) (fst (pushTasks clock k pp))"
  by (simp add: extractTasks_def establishTaskDependencies_map)

lemma extractTasks_kinds:
  "map type_t (extractTasks clock k pp) = emittedKinds (tokenized pp)"
  by (simp add: extractTasks_map comp_def pushTasks_kinds)

lemma edge_iff:
  assumes a: "a \<in> set (extractTasks clock k pp)" and b: "b \<in> set (extractTasks clock k pp)"
  shows "id_t b \<in> set (dependencies a) \<longleftrightarrow> type_t b \<in> set (requiredKinds (type_t a))"
proof -
  let ?ts = "fst (pushTasks clock k pp)"
  from a obtain a0 where a0: "a0 \<in> set ?ts" "a = wire ?ts a0"
    by (auto simp: extractTasks_map)
  from b obtain b0 where b0: "b0 \<in> set ?ts" "b = wire ?ts b0"
    by (auto simp: extractTasks_map)
  have wf: "\<And>t. t \<in> set ?ts \<Longrightarrow> wellFormed t"
    using pushTasks_wellFormed [of clock k pp] by (simp add: list_all_iff)
  have dist: "distinct (map type_t ?ts)"
    by (simp add: pushTasks_kinds distinct_emittedKinds)
  have pb: "prefix (idPrefix (type_t b0)) (id_t b0)"
    using wf [OF b0(1)] by (simp add: wellFormed_def)
  have deps: "set (dependencies a) =
      set (dependencies a0) \<union>
      (\<Union>ty\<in>set (requiredKinds (type_t a0)).
          set_option (map_option id_t (find (\<lambda>x. type_t x = ty) ?ts)))"
    by (simp add: a0(2) wire_def set_dependencies_foldl_addDep)
  show ?thesis
  proof
    assume "id_t b \<in> set (dependencies a)"
    then consider (hard) "id_t b0 \<in> set (dependencies a0)"
      | (added) ty d where "ty \<in> set (requiredKinds (type_t a0))"
          "find (\<lambda>x. type_t x = ty) ?ts = Some d" "id_t d = id_t b0"
      using deps by (auto simp: b0(2))
    then have "type_t b0 \<in> set (requiredKinds (type_t a0))"
    proof cases
      case hard
      with wf [OF a0(1)] obtain ty where ty: "ty \<in> set (requiredKinds (type_t a0))"
          "prefix (idPrefix ty) (id_t b0)"
        by (auto simp: wellFormed_def list_all_iff list_ex_iff)
      from idPrefix_disjoint [OF ty(2) pb] ty(1) show ?thesis by simp
    next
      case added
      from find_by_type_Some [OF added(2)] have d: "d \<in> set ?ts" "type_t d = ty" by simp_all
      from wf [OF d(1)] have "prefix (idPrefix ty) (id_t b0)"
        by (simp add: wellFormed_def d(2) added(3) [symmetric])
      from idPrefix_disjoint [OF this pb] added(1) show ?thesis by simp
    qed
    then show "type_t b \<in> set (requiredKinds (type_t a))" by (simp add: a0(2) b0(2))
  next
    assume "type_t b \<in> set (requiredKinds (type_t a))"
    then have "type_t b0 \<in> set (requiredKinds (type_t a0))" by (simp add: a0(2) b0(2))
    moreover have "find (\<lambda>x. type_t x = type_t b0) ?ts = Some b0"
      by (rule find_by_type_distinct [OF dist b0(1)])
    ultimately show "id_t b \<in> set (dependencies a)"
      unfolding deps by (force simp: b0(2))
  qed
qed

lemma kindRank_required: "ty' \<in> set (requiredKinds ty) \<Longrightarrow> kindRank ty' < kindRank ty"
  by (cases ty) (auto simp: requiredKinds_def kindRank_def)

lemma root_required: "ty \<noteq> CODE_GENERATION \<Longrightarrow> CODE_GENERATION \<in> set (requiredKinds ty)"
  by (cases ty) (auto simp: requiredKinds_def)

lemma kindEdges_extractTasks:
  "kindEdges (extractTasks clock k pp) =
   {(x, y). x \<in> set (emittedKinds (tokenized pp)) \<and> y \<in> set (emittedKinds (tokenized pp)) \<and>
            y \<in> set (requiredKinds x)}"
proof -
  have K: "set (emittedKinds (tokenized pp)) = type_t ` set (extractTasks clock k pp)"
    by (simp add: extractTasks_kinds [symmetric, of pp clock k])
  show ?thesis
    unfolding kindEdges_def K
    by (auto simp: dependsOn_iff edge_iff image_iff)
qed

lemma taskContent_wire [simp]: "taskContent (wire ts t) = taskContent t"
proof -
  have "taskContent (foldl (addDep ts) t ks) = taskContent t" for ks
    by (induction ks arbitrary: t)
       (simp_all add: taskContent_def addDep_def split: option.splits)
  then show ?thesis by (simp add: wire_def)
qed

lemma create_content:
  "taskContent (fst (createCodeGenerationTask clock k pp)) =
   taskContent (fst (createCodeGenerationTask clock' k' pp))"
  "taskContent (fst (createDocumentationTask clock k pp)) =
   taskContent (fst (createDocumentationTask clock' k' pp))"
  "taskContent (fst (createTestingTask clock k pp)) =
   taskContent (fst (createTestingTask clock' k' pp))"
  "taskContent (fst (createOptimizationTask clock k pp)) =
   taskContent (fst (createOptimizationTask clock' k' pp))"
  "taskContent (fst (createSecurityTask clock k pp)) =
   taskContent (fst (createSecurityTask clock' k' pp))"
  "taskContent (fst (createDeploymentTask clock k pp)) =
   taskContent (fst (createDeploymentTask clock' k' pp))"
  by (simp_all add: taskContent_def createCodeGenerationTask_def createDocumentationTask_def
      createTestingTask_def createOptimizationTask_def createSecurityTask_def
      createDeploymentTask_def Date_now_def)

lemma pushIf_content_cong:
  assumes "map taskContent (fst s) = map taskContent (fst s')"
    and "\<And>k k'. taskContent (fst (f k)) = taskContent (fst (f' k'))"
  shows "map taskContent (fst (pushIf c f s)) = map taskContent (fst (pushIf c f' s'))"
  using assms by (simp add: fst_pushIf)

lemma pushTasks_content:
  "map taskContent (fst (pushTasks clock k pp)) = map taskContent (fst (pushTasks clock' k' pp))"
  unfolding pushTasks_def Let_def
  by (intro pushIf_content_cong create_content) simp

lemma extractTasks_content:
  "map taskContent (extractTasks clock k pp) = map taskContent (extractTasks clock' k' pp)"
  by (simp add: extractTasks_map comp_def pushTasks_content [of clock k pp clock' k'])

subsection \<open>A security task without an optimization task\<close>

text \<open>
  Whatever the clock: when the security trigger fires and the optimization trigger does
  not, the security task returned holds a dependency id that is the id of no returned
  task.
\<close>

lemma pushIf_pushed: "\<exists>k'. fst (f k') \<in> set (fst (pushIf True f s))"
  by (auto simp: fst_pushIf)

lemma pushIf_keeps: "t \<in> set (fst s) \<Longrightarrow> t \<in> set (fst (pushIf c f s))"
  by (simp add: fst_pushIf)

lemma pushTasks_security:
  assumes "requiresSecurity (tokenized pp)"
  shows "\<exists>k'. fst (createSecurityTask clock k' pp) \<in> set (fst (pushTasks clock k pp))"
proof -
  obtain s where
    "pushTasks clock k pp =
       pushIf (requiresDeployment (tokenized pp)) (\<lambda>k. createDeploymentTask clock k pp)
         (pushIf True (\<lambda>k. createSecurityTask clock k pp) s)"
    using assms by (simp add: pushTasks_def Let_def)
  moreover obtain k' where
    "fst (createSecurityTask clock k' pp) \<in>
       set (fst (pushIf True (\<lambda>k. createSecurityTask clock k pp) s))"
    using pushIf_pushed [of "\<lambda>k. createSecurityTask clock k pp" s] by blast
  ultimately show ?thesis by (auto intro: pushIf_keeps)
qed

lemma security_without_optimization_dangles:
  assumes sec: "requiresSecurity (tokenized pp)"
    and opt: "\<not> requiresOptimization (tokenized pp)"
  shows "\<exists>t\<in>set (extractTasks clock k pp). type_t t = SECURITY \<and>
           (\<exists>d\<in>set (dependencies t). d \<notin> id_t ` set (extractTasks clock k pp))"
proof -
  let ?ts = "fst (pushTasks clock k pp)"
  from pushTasks_security [OF sec] obtain k' where
    s0: "fst (createSecurityTask clock k' pp) \<in> set ?ts" ..
  let ?s0 = "fst (createSecurityTask clock k' pp)"
  let ?d = "''opt_'' @ string_of_nat (clock (Suc (Suc k')))"
  have d0: "?d \<in> set (dependencies ?s0)"
    by (simp add: createSecurityTask_def Date_now_def)
  have mem: "wire ?ts ?s0 \<in> set (extractTasks clock k pp)"
    using s0 by (simp add: extractTasks_map)
  have d: "?d \<in> set (dependencies (wire ?ts ?s0))"
    using d0 by (simp add: wire_def set_dependencies_foldl_addDep)
  have "?d \<notin> id_t ` set (extractTasks clock k pp)"
  proof
    assume "?d \<in> id_t ` set (extractTasks clock k pp)"
    then obtain b where b: "b \<in> set (extractTasks clock k pp)" "id_t b = ?d" by auto
    from b(1) obtain b0 where b0: "b0 \<in> set ?ts" "b = wire ?ts b0"
      by (auto simp: extractTasks_map)
    from pushTasks_wellFormed [of clock k pp] b0(1) have "prefix (idPrefix (type_t b0)) (id_t b0)"
      by (simp add: list_all_iff wellFormed_def)
    moreover have "prefix (idPrefix OPTIMIZATION) (id_t b0)"
      using b(2) b0(2) by (simp add: idPrefix_def)
    ultimately have "type_t b0 = OPTIMIZATION" by (rule idPrefix_disjoint)
    with b0(1) have "OPTIMIZATION \<in> type_t ` set ?ts" by (rule rev_image_eqI [OF _ sym])
    moreover have "OPTIMIZATION \<notin> set (emittedKinds (tokenized pp))"
      using opt by (simp add: emittedKinds_def)
    moreover have "type_t ` set ?ts = set (emittedKinds (tokenized pp))"
      unfolding pushTasks_kinds [of clock k pp, symmetric] by simp
    ultimately show False by simp
  qed
  with mem d show ?thesis by (intro bexI [of _ "wire ?ts ?s0"] conjI bexI [of _ ?d]) simp_all
qed

subsection \<open>What two runs agree on\<close>

text \<open>
  Two runs on the same text with the same lexical analysis, under any two clocks: both
  fail with the same message, or both return the same \<open>ProcessedPrompt\<close> and task lists
  with the same kinds in the same order, the same descriptions, complexities and
  contexts, and the same edges between kinds, an edge being a dependency id that resolves
  to a task of the list. The \<open>dependencies\<close> arrays themselves are not part of this:
  they hold ids that resolve to no task, and how many depends on the clock.
\<close>

lemma runs_agree_on_resolved_graph:
  "(case (decompose nlp clock1 k1 prompt, decompose nlp clock2 k2 prompt) of
      (Inl message1, Inl message2) \<Rightarrow> message1 = message2
    | (Inr (pp1, ts1), Inr (pp2, ts2)) \<Rightarrow>
        pp1 = pp2 \<and> map taskContent ts1 = map taskContent ts2 \<and> kindEdges ts1 = kindEdges ts2
    | _ \<Rightarrow> False)"
  by (cases "processPrompt nlp prompt")
     (simp_all add: decompose_def kindEdges_extractTasks
        extractTasks_content [of clock1 k1 _ clock2 k2])

subsection \<open>Two concrete runs\<close>

text \<open>
  The prompt \<open>secure api\<close>, once under a clock that ticks at every reading and once under
  a clock that stands still.
\<close>

lemma secureApi_run:
  "map (\<lambda>t. (type_t t, id_t t, dependencies t))
     (extractTasks (\<lambda>k. k) 0 (processTokenized ''secure api'' secureApi)) =
   [(CODE_GENERATION, ''code_gen_0'', []),
    (DOCUMENTATION, ''docs_1'', [''code_gen_2'', ''code_gen_0'']),
    (SECURITY, ''security_3'', [''code_gen_4'', ''opt_5'', ''code_gen_0''])]"
  by code_simp

lemma secureApi_run_standing:
  "map (\<lambda>t. (type_t t, id_t t, dependencies t))
     (extractTasks (\<lambda>k. 0) 0 (processTokenized ''secure api'' secureApi)) =
   [(CODE_GENERATION, ''code_gen_0'', []),
    (DOCUMENTATION, ''docs_0'', [''code_gen_0'']),
    (SECURITY, ''security_0'', [''code_gen_0'', ''opt_0''])]"
  by code_simp

section \<open>The claims on the task graph\<close>

text \<open>
  C1 (fails on the code). The claim: every id in the \<open>dependencies\<close> of a returned task
  resolves to a returned task, and a security task emitted without an optimization task
  depends only on the code generation task. \<open>createSecurityTask\<close> writes an \<open>opt_...\<close> id
  into the dependencies whether or not an optimization task is pushed, and
  \<open>addDependencyIfExists\<close> only ever adds ids, so under every clock such a security task
  holds an id of no returned task (\<open>security_without_optimization_dangles\<close>). On
  Scenario B of the specification, with a clock that stands still at 0, no optimization
  task is emitted and the security task depends on \<open>code_gen_0\<close> and on \<open>opt_0\<close>, the
  id of no task.
\<close>

theorem C1_security_depends_on_missing_optimization:
  "map (\<lambda>t. (type_t t, id_t t, dependencies t))
     (extractTasks (\<lambda>k. 0) 0 (processTokenized scenarioB_text scenarioB)) =
   [(CODE_GENERATION, ''code_gen_0'', []),
    (DOCUMENTATION, ''docs_0'', [''code_gen_0'']),
    (TESTING, ''test_0'', [''code_gen_0'']),
    (SECURITY, ''security_0'', [''code_gen_0'', ''opt_0''])] \<and>
   \<not> requiresOptimization scenarioB"
  by code_simp

text \<open>
  C2. For every processed prompt, every clock and every number of earlier readings, the
  list \<open>extractTasks\<close> returns has exactly one task of kind \<open>code_generation\<close>, and the
  dependencies of that task are empty: the dependency lists of the tasks of that kind are
  the one-element list of the empty list.
\<close>

theorem C2_one_root:
  "map dependencies (filter (\<lambda>t. type_t t = CODE_GENERATION) (extractTasks clock k pp)) = [[]]"
proof -
  let ?ts = "fst (pushTasks clock k pp)"
  let ?root = "fst (createCodeGenerationTask clock k pp)"
  have "filter (\<lambda>t. type_t t = CODE_GENERATION) ?ts = [?root]"
    by (simp add: pushTasks_def fst_pushIf Let_def)
  moreover have "filter (\<lambda>t. type_t t = CODE_GENERATION) (map (wire ?ts) ?ts) =
      map (wire ?ts) (filter (\<lambda>t. type_t t = CODE_GENERATION) ?ts)"
    by (simp add: filter_map comp_def)
  moreover have "dependencies (wire ?ts ?root) = []"
    by (simp add: wire_def requiredKinds_def)
  ultimately show ?thesis by (simp add: extractTasks_map)
qed

text \<open>
  C3. For every processed prompt and clock, the dependency relation of the returned tasks
  is acyclic (no task reaches itself through one or more dependency edges), and every task
  of another kind than \<open>code_generation\<close> reaches every \<open>code_generation\<close> task (by C2,
  the one root) through dependency edges.
\<close>

theorem C3_acyclic_rooted:
  "acyclic (dependsOn (extractTasks clock k pp)) \<and>
   (\<forall>t\<in>set (extractTasks clock k pp). \<forall>r\<in>set (extractTasks clock k pp).
      type_t t \<noteq> CODE_GENERATION \<and> type_t r = CODE_GENERATION \<longrightarrow>
      (t, r) \<in> (dependsOn (extractTasks clock k pp))\<^sup>+)"
proof
  let ?ts = "extractTasks clock k pp"
  have "dependsOn ?ts \<subseteq> (measure (kindRank \<circ> type_t))\<inverse>"
    by (auto simp: dependsOn_iff edge_iff kindRank_required)
  moreover have "acyclic ((measure (kindRank \<circ> type_t))\<inverse>)"
    by (simp add: wf_acyclic)
  ultimately show "acyclic (dependsOn ?ts)" by (rule acyclic_subset [rotated])
  show "\<forall>t\<in>set ?ts. \<forall>r\<in>set ?ts.
      type_t t \<noteq> CODE_GENERATION \<and> type_t r = CODE_GENERATION \<longrightarrow> (t, r) \<in> (dependsOn ?ts)\<^sup>+"
    by (auto simp: dependsOn_iff edge_iff root_required intro!: r_into_trancl)
qed

theorem C3_witness:
  "let ts = extractTasks (\<lambda>k. k) 0 (processTokenized ''secure api'' secureApi)
   in acyclic (dependsOn ts) \<and> (ts ! 2, ts ! 0) \<in> (dependsOn ts)\<^sup>+"
proof -
  define ts where "ts = extractTasks (\<lambda>k. k) 0 (processTokenized ''secure api'' secureApi)"
  have run: "map (\<lambda>t. (type_t t, id_t t, dependencies t)) ts =
      [(CODE_GENERATION, ''code_gen_0'', []),
       (DOCUMENTATION, ''docs_1'', [''code_gen_2'', ''code_gen_0'']),
       (SECURITY, ''security_3'', [''code_gen_4'', ''opt_5'', ''code_gen_0''])]"
    unfolding ts_def by (rule secureApi_run)
  from arg_cong [OF run, of length] have len: "length ts = 3" by simp
  from arg_cong [OF run, of "\<lambda>xs. fst (xs ! 2)"] len have t2: "type_t (ts ! 2) = SECURITY"
    by simp
  from arg_cong [OF run, of "\<lambda>xs. fst (xs ! 0)"] len have t0: "type_t (ts ! 0) = CODE_GENERATION"
    by simp
  from len have mem: "ts ! 2 \<in> set ts" "ts ! 0 \<in> set ts" by simp_all
  from C3_acyclic_rooted [of "\<lambda>k. k" 0 "processTokenized ''secure api'' secureApi"]
  have "acyclic (dependsOn ts)"
    and "\<forall>t\<in>set ts. \<forall>r\<in>set ts. type_t t \<noteq> CODE_GENERATION \<and> type_t r = CODE_GENERATION \<longrightarrow>
           (t, r) \<in> (dependsOn ts)\<^sup>+"
    unfolding ts_def by simp_all
  with mem t2 t0 show ?thesis unfolding ts_def [symmetric] Let_def by simp
qed

text \<open>
  C8 (fails on the code). The claim: two runs on the same text give equal interpreted
  requests and task graphs with the same kinds and the same dependency edges, only the
  task identifier strings differing. The requests, the kinds and the edges that resolve
  to a task do agree (\<open>runs_agree_on_resolved_graph\<close>), but the \<open>dependencies\<close> arrays
  differ by more than their id strings. Every \<open>create...Task\<close> writes dependency ids
  from fresh readings of the clock instead of the ids of the tasks pushed: when the
  clock stands still the id written for the code generation task is the one that task
  has, and \<open>addDependencyIfExists\<close> adds nothing; when the clock ticks it is the id of
  no task, and \<open>addDependencyIfExists\<close> adds the real id after it. For the prompt
  \<open>secure api\<close> the documentation task has one dependency under the standing clock and two
  under the ticking one, the security task two and three. This is the id wiring that
  C1 fails on.
\<close>

theorem C8_dependency_lists_depend_on_clock:
  "map dependencies (extractTasks (\<lambda>k. 0) 0 (processTokenized ''secure api'' secureApi)) =
     [[], [''code_gen_0''], [''code_gen_0'', ''opt_0'']] \<and>
   map dependencies (extractTasks (\<lambda>k. k) 0 (processTokenized ''secure api'' secureApi)) =
     [[], [''code_gen_2'', ''code_gen_0''], [''code_gen_4'', ''opt_5'', ''code_gen_0'']]"
  using arg_cong [OF secureApi_run_standing, of "map (\<lambda>x. snd (snd x))"]
    arg_cong [OF secureApi_run, of "map (\<lambda>x. snd (snd x))"]
  by (simp add: comp_def)

section \<open>The claims on the request interpreter\<close>

text \<open>
  C4 (fails as stated). The claim: \<open>language\<close>, \<open>framework\<close> and \<open>platform\<close> are the first
  technology entity, in entity order, that matches the lookup list. The code searches the
  lookup list, not the entities: with the entities \<open>python\<close>, \<open>javascript\<close> in this order
  the language is \<open>javascript\<close>, the earlier value of the lookup list, where the claim
  gives \<open>python\<close>.
\<close>

theorem C4_counterexample:
  "language (extractCodeContext
      \<lparr> tokens = [''python'', ''or'', ''javascript''], tags = [],
        entities = \<lparr> technologies = [''python'', ''javascript''], actions = [], nouns = [],
                     numbers = [] \<rparr> \<rparr>) = Some ''javascript'' \<and>
   spec_first_entity_match languages [''python'', ''javascript''] = Some ''python''"
  by (simp add: extractCodeContext_def spec_first_entity_match_def languages_def
      toLowerCase_python toLowerCase_javascript)

text \<open>
  C4, amended. \<open>language\<close> is the first value of the list \<open>languages\<close>, in the order of
  that list, that some technology entity equals once lower-cased (or equals followed by
  \<open>programming\<close>); \<open>framework\<close> and \<open>platform\<close> likewise for their lists, without the
  suffix. The order of the entities plays no part: two prompts with the same set of
  technology entities get the same language, framework and platform.
\<close>

theorem C4_first_in_lookup_order:
  assumes "set (technologies (entities tp')) = set (technologies (entities tp))"
  shows "language (extractCodeContext tp) =
           find (\<lambda>lang. \<exists>e\<in>set (technologies (entities tp)).
                    toLowerCase e = lang \<or> toLowerCase e = lang @ ''programming'') languages \<and>
         framework (extractCodeContext tp) =
           find (\<lambda>fw. \<exists>e\<in>set (technologies (entities tp)). toLowerCase e = fw) frameworks \<and>
         platform (extractCodeContext tp) =
           find (\<lambda>pf. \<exists>e\<in>set (technologies (entities tp)). toLowerCase e = pf) platforms \<and>
         language (extractCodeContext tp') = language (extractCodeContext tp) \<and>
         framework (extractCodeContext tp') = framework (extractCodeContext tp) \<and>
         platform (extractCodeContext tp') = platform (extractCodeContext tp)"
proof -
  have "\<And>x. (x \<in> toLowerCase ` set (technologies (entities tp))) =
      (\<exists>e\<in>set (technologies (entities tp)). toLowerCase e = x)"
    by auto
  then show ?thesis
    using assms by (simp add: extractCodeContext_def Let_def bex_disj_distrib)
qed

theorem C4_witness:
  "language (extractCodeContext
      \<lparr> tokens = [], tags = [],
        entities = \<lparr> technologies = [''javascript'', ''python''], actions = [], nouns = [],
                     numbers = [] \<rparr> \<rparr>) =
   language (extractCodeContext
      \<lparr> tokens = [], tags = [],
        entities = \<lparr> technologies = [''python'', ''javascript''], actions = [], nouns = [],
                     numbers = [] \<rparr> \<rparr>)"
  using C4_first_in_lookup_order
    [of "\<lparr> tokens = [], tags = [],
        entities = \<lparr> technologies = [''javascript'', ''python''], actions = [], nouns = [],
                     numbers = [] \<rparr> \<rparr>"
        "\<lparr> tokens = [], tags = [],
        entities = \<lparr> technologies = [''python'', ''javascript''], actions = [], nouns = [],
                     numbers = [] \<rparr> \<rparr>"]
  by (simp add: insert_commute)

text \<open>
  C6. \<open>context.constraints\<close> is, for the lower-cased space-joined token text and the four
  trigger phrases in their order, what the specification's wording gives phrase by phrase:
  the trimmed span between the end of the first occurrence of the phrase and the next
  \<open>.\<close> after it when both exist, and nothing for a phrase that is absent or that no \<open>.\<close>
  follows. \<open>extractCodeContext\<close> has no failing branch: it returns for every prompt.
\<close>

theorem C6_constraints:
  "constraints (extractCodeContext tp) =
   concat (map (spec_constraint (toLowerCase (join (tokens tp) '' ''))) constraintPhrases)"
proof -
  have "\<forall>p\<in>set constraintPhrases. CHR ''.'' \<notin> set p"
    by (simp add: constraintPhrases_def)
  then show ?thesis
    by (simp add: extractCodeContext_def Let_def foldl_pushConstraint)
qed

theorem C6_witness:
  "constraints (extractCodeContext
      \<lparr> tokens = [''It'', ''must'', ''be'', ''fast.'', ''It'', ''should'', ''be'', ''small''],
        tags = [],
        entities = \<lparr> technologies = [], actions = [], nouns = [], numbers = [] \<rparr> \<rparr>) =
   [''fast'']"
proof -
  have "concat (map (spec_constraint (toLowerCase
          (join [''It'', ''must'', ''be'', ''fast.'', ''It'', ''should'', ''be'', ''small''] '' '')))
        constraintPhrases) = [''fast'']"
    by code_simp
  with C6_constraints
    [of "\<lparr> tokens = [''It'', ''must'', ''be'', ''fast.'', ''It'', ''should'', ''be'', ''small''],
          tags = [],
          entities = \<lparr> technologies = [], actions = [], nouns = [], numbers = [] \<rparr> \<rparr>"]
  show ?thesis by simp
qed

section \<open>The claims on the prompt processor\<close>

text \<open>
  C5 (fails as stated). The claim: complexity and priority are integers in \<open>[1,10]\<close>. The
  complexity adds one half per entity and is not rounded: a prompt with three entities
  and no complexity keyword has complexity \<open>3/2\<close>.
\<close>

theorem C5_counterexample:
  "calculateComplexity
      \<lparr> tokens = [''build'', ''a'', ''login'', ''form''], tags = [],
        entities = \<lparr> technologies = [], actions = [''build''], nouns = [''login'', ''form''],
                     numbers = [] \<rparr> \<rparr> \<notin> \<int>"
proof -
  have "toLowerCase ''build'' = ''build''" "toLowerCase ''a'' = ''a''"
       "toLowerCase ''login'' = ''login''" "toLowerCase ''form'' = ''form''"
    by code_simp+
  then have "calculateComplexity
      \<lparr> tokens = [''build'', ''a'', ''login'', ''form''], tags = [],
        entities = \<lparr> technologies = [], actions = [''build''], nouns = [''login'', ''form''],
                     numbers = [] \<rparr> \<rparr> = 3 / 2"
    by (simp add: calculateComplexity_def Object_values_def complexityKeywords_def)
  then show ?thesis by (simp only: three_halves_not_int not_False_eq_True)
qed

text \<open>
  C5, amended. The complexity lies in \<open>[1,10]\<close> and is an integer or an integer and a
  half (twice the complexity is an integer); the priority is an integer in \<open>[1,10]\<close>.
\<close>

theorem C5_bounds:
  "1 \<le> calculateComplexity tp \<and> calculateComplexity tp \<le> 10 \<and>
   2 * calculateComplexity tp \<in> \<int> \<and>
   1 \<le> calculatePriority tp \<and> calculatePriority tp \<le> 10"
proof -
  define n where "n = foldl (\<lambda>sum arr. sum + length arr) 0 (Object_values (entities tp))"
  define m where "m = length (filter (\<lambda>token. includes_arr complexityKeywords (toLowerCase token))
                                   (tokens tp))"
  have c: "calculateComplexity tp = min (max (of_nat n * (1 / 2) + of_nat m * 2) 1) 10"
    by (simp add: calculateComplexity_def n_def m_def)
  have "2 * calculateComplexity tp = min (max (of_nat (n + 4 * m)) 2) 20"
    unfolding c by (simp add: min_def max_def)
  also have "\<dots> = of_nat (min (max (n + 4 * m) 2) 20)"
    by (simp add: min_def max_def)
  finally have "2 * calculateComplexity tp \<in> \<int>" by (simp only: Ints_of_nat)
  moreover have "1 \<le> calculateComplexity tp" "calculateComplexity tp \<le> 10"
    unfolding c by simp_all
  moreover have "1 \<le> calculatePriority tp" "calculatePriority tp \<le> 10"
    by (simp_all add: calculatePriority_def priorityFrom_def)
  ultimately show ?thesis by simp
qed

text \<open>
  C7. For every input string, \<open>isValid\<close> is false exactly when the string is shorter than
  10, which is also exactly when \<open>errors\<close> has an entry (the too-short message); the
  too-long warning is among the warnings exactly when the string is longer than 1000, and
  such a string is valid, with no error. \<open>validatePrompt\<close> has no \<open>throw\<close>: it returns the
  record for every string and every tokenizer.
\<close>

theorem C7_validatePrompt:
  "isValid (validatePrompt tokenize prompt) = (\<not> length prompt < 10) \<and>
   errors (validatePrompt tokenize prompt) = (if length prompt < 10 then [msg_too_short] else []) \<and>
   (msg_very_long \<in> set (warnings (validatePrompt tokenize prompt)) \<longleftrightarrow> length prompt > 1000) \<and>
   (length prompt > 1000 \<longrightarrow>
      isValid (validatePrompt tokenize prompt) \<and> errors (validatePrompt tokenize prompt) = [])"
  by (simp add: validatePrompt_def Let_def msg_very_long_def msg_code_type_def)

theorem C7_witness:
  "isValid (validatePrompt (\<lambda>s. []) (replicate 1001 CHR ''a'')) \<and>
   errors (validatePrompt (\<lambda>s. []) (replicate 1001 CHR ''a'')) = [] \<and>
   msg_very_long \<in> set (warnings (validatePrompt (\<lambda>s. []) (replicate 1001 CHR ''a'')))"
  using C7_validatePrompt [of "\<lambda>s. []" "replicate 1001 CHR ''a''"] by simp

section \<open>The implicit claims\<close>

text \<open>
  C9. Each task trigger fires whenever one of its keywords is a contiguous part of the
  lower-cased space-joined token text (for the security trigger, a security keyword or a
  sensitive-operation keyword); in particular a prompt with the token \<open>latest\<close> triggers
  the testing task, \<open>test\<close> being part of \<open>latest\<close>.
\<close>

theorem C9_substring_triggers:
  "(\<forall>kw. sublist kw (toLowerCase (join (tokens tp) '' '')) \<longrightarrow>
      (kw \<in> set docKeywords \<longrightarrow> requiresDocumentation tp) \<and>
      (kw \<in> set testKeywords \<longrightarrow> requiresTesting tp) \<and>
      (kw \<in> set optKeywords \<longrightarrow> requiresOptimization tp) \<and>
      (kw \<in> set securityKeywords \<union> set sensitiveKeywords \<longrightarrow> requiresSecurity tp) \<and>
      (kw \<in> set deployKeywords \<longrightarrow> requiresDeployment tp)) \<and>
   (''latest'' \<in> set (tokens tp) \<longrightarrow> requiresTesting tp)"
proof (intro conjI allI impI)
  fix kw
  assume sub: "sublist kw (toLowerCase (join (tokens tp) '' ''))"
  have hit: "containsKeywords tp kws"
    if "kw \<in> set kws" "toLowerCase kw = kw" for kws
    using that sub by (rule containsKeywords_hit)
  show "requiresDocumentation tp" if k: "kw \<in> set docKeywords"
  proof -
    have "toLowerCase kw = kw" using k by (intro keywords_lower) simp
    with k have "containsKeywords tp docKeywords" by (rule hit)
    then show ?thesis by (simp add: requiresDocumentation_def)
  qed
  show "requiresTesting tp" if k: "kw \<in> set testKeywords"
  proof -
    have "toLowerCase kw = kw" using k by (intro keywords_lower) simp
    with k have "containsKeywords tp testKeywords" by (rule hit)
    then show ?thesis by (simp add: requiresTesting_def)
  qed
  show "requiresOptimization tp" if k: "kw \<in> set optKeywords"
  proof -
    have "toLowerCase kw = kw" using k by (intro keywords_lower) simp
    with k have "containsKeywords tp optKeywords" by (rule hit)
    then show ?thesis by (simp add: requiresOptimization_def)
  qed
  show "requiresSecurity tp" if k: "kw \<in> set securityKeywords \<union> set sensitiveKeywords"
  proof -
    have low: "toLowerCase kw = kw" using k by (intro keywords_lower) blast
    from k have "containsKeywords tp securityKeywords \<or> containsKeywords tp sensitiveKeywords"
      using hit [OF _ low] by blast
    then show ?thesis by (simp add: requiresSecurity_def containsSensitiveOperations_def)
  qed
  show "requiresDeployment tp" if k: "kw \<in> set deployKeywords"
  proof -
    have "toLowerCase kw = kw" using k by (intro keywords_lower) simp
    with k have "containsKeywords tp deployKeywords" by (rule hit)
    then show ?thesis by (simp add: requiresDeployment_def)
  qed
next
  assume "''latest'' \<in> set (tokens tp)"
  then have "sublist ''latest'' (join (tokens tp) '' '')" by (rule sublist_join)
  then have "sublist (toLowerCase ''latest'') (toLowerCase (join (tokens tp) '' ''))"
    unfolding toLowerCase_def by (rule map_mono_sublist)
  moreover have "toLowerCase ''latest'' = ''latest''"
    by (simp add: toLowerCase_def toLowerCase_char_def)
  moreover have "sublist ''test'' ''latest''"
    by (simp add: sublist_Cons_right)
  ultimately have sub: "sublist ''test'' (toLowerCase (join (tokens tp) '' ''))"
    using sublist_transitive by simp
  have "''test'' \<in> set testKeywords" "toLowerCase ''test'' = ''test''"
    by (simp_all add: testKeywords_def toLowerCase_def toLowerCase_char_def)
  then have "containsKeywords tp testKeywords" using sub by (rule containsKeywords_hit)
  then show "requiresTesting tp" by (simp add: requiresTesting_def)
qed

theorem C9_witness:
  "requiresTesting
      \<lparr> tokens = [''Use'', ''the'', ''latest'', ''release''], tags = [],
        entities = \<lparr> technologies = [], actions = [], nouns = [], numbers = [] \<rparr> \<rparr> \<and>
   requiresDeployment
      \<lparr> tokens = [''Use'', ''the'', ''latest'', ''release''], tags = [],
        entities = \<lparr> technologies = [], actions = [], nouns = [], numbers = [] \<rparr> \<rparr>"
proof -
  let ?tp = "\<lparr> tokens = [''Use'', ''the'', ''latest'', ''release''], tags = [],
        entities = \<lparr> technologies = [], actions = [], nouns = [], numbers = [] \<rparr> \<rparr>"
  have sub: "sublist ''release'' (toLowerCase (join (tokens ?tp) '' ''))"
    by code_simp
  have kw: "''release'' \<in> set deployKeywords"
    by (simp add: deployKeywords_def)
  note th = C9_substring_triggers [of ?tp]
  from th have "requiresTesting ?tp" by simp
  moreover from th sub kw have "requiresDeployment ?tp" by blast
  ultimately show ?thesis by simp
qed

text \<open>
  C10. \<open>calculatePriority\<close> returns 3, 5 or 7, and the clamp never binds: the result is
  5, plus 2 when a lower-cased token is an urgency keyword, minus 2 when a lower-cased
  token is a low-priority keyword. Both checks compare a keyword with a whole single
  token, so \<open>nice to have\<close> could only count through one token that is, lower-cased,
  that whole phrase. \<open>calculatePriority\<close> is private and \<open>processPrompt\<close> calls it on the
  tokens of \<open>analyzePrompt\<close>, which a word tokenizer cuts at every space: for every
  prompt none of whose tokens contains a space, and for every prompt none of whose tokens
  is that phrase, the result is what the check computes without the keyword
  \<open>nice to have\<close>, which therefore never causes the adjustment by \<open>-2\<close>.
\<close>

theorem C10_priority_values:
  "calculatePriority tp \<in> {3, 5, 7} \<and>
   calculatePriority tp =
     5 + (if \<exists>t\<in>set (tokens tp). toLowerCase t \<in> set urgentKeywords then 2 else 0)
       - (if \<exists>t\<in>set (tokens tp). toLowerCase t \<in> set lowPriorityKeywords then 2 else 0) \<and>
   ((\<forall>t\<in>set (tokens tp). toLowerCase t \<noteq> ''nice to have'') \<longrightarrow>
      calculatePriority tp = priorityFrom urgentKeywords [''experimental'', ''optional''] tp) \<and>
   ((\<forall>t\<in>set (tokens tp). CHR '' '' \<notin> set t) \<longrightarrow>
      calculatePriority tp = priorityFrom urgentKeywords [''experimental'', ''optional''] tp)"
proof -
  have low: "(\<exists>t\<in>set (tokens tp). toLowerCase t \<in> set lowPriorityKeywords) \<longleftrightarrow>
      (\<exists>t\<in>set (tokens tp). toLowerCase t \<in> set [''experimental'', ''optional''])"
    if "\<forall>t\<in>set (tokens tp). toLowerCase t \<noteq> ''nice to have''"
    using that by (auto simp: lowPriorityKeywords_def)
  have nospace: "\<forall>t\<in>set (tokens tp). toLowerCase t \<noteq> ''nice to have''"
    if "\<forall>t\<in>set (tokens tp). CHR '' '' \<notin> set t"
  proof
    fix t assume "t \<in> set (tokens tp)"
    with that have "CHR '' '' \<notin> set (toLowerCase t)" by (simp add: toLowerCase_space_free)
    then show "toLowerCase t \<noteq> ''nice to have''" by auto
  qed
  have a: "calculatePriority tp \<in> {3, 5, 7}"
    by (simp add: calculatePriority_def priorityFrom_cases)
  have b: "calculatePriority tp =
     5 + (if \<exists>t\<in>set (tokens tp). toLowerCase t \<in> set urgentKeywords then 2 else 0)
       - (if \<exists>t\<in>set (tokens tp). toLowerCase t \<in> set lowPriorityKeywords then 2 else 0)"
    by (simp only: calculatePriority_def priorityFrom_cases)
  have c: "calculatePriority tp = priorityFrom urgentKeywords [''experimental'', ''optional''] tp"
    if "\<forall>t\<in>set (tokens tp). toLowerCase t \<noteq> ''nice to have''"
    by (simp only: calculatePriority_def priorityFrom_cases low [OF that])
  from a b c nospace show ?thesis by blast
qed

theorem C10_witness:
  "calculatePriority
      \<lparr> tokens = [''urgent'', ''nice'', ''to'', ''have''], tags = [],
        entities = \<lparr> technologies = [], actions = [], nouns = [], numbers = [] \<rparr> \<rparr> = 7"
proof -
  let ?tp = "\<lparr> tokens = [''urgent'', ''nice'', ''to'', ''have''], tags = [],
        entities = \<lparr> technologies = [], actions = [], nouns = [], numbers = [] \<rparr> \<rparr>"
  have "priorityFrom urgentKeywords [''experimental'', ''optional''] ?tp = 7"
    by code_simp
  with C10_priority_values [of ?tp] show ?thesis by simp
qed

end
